theory Spec2Isabelle
  imports Complex_Main
begin

text \<open>
  A model of the R notebook \<^emph>\<open>Building a Spam Filter using Naive Bayes in R\<close>: the
  cleaning of the messages, the vocabularies and word counts of the training split, the
  function \<^verbatim>\<open>classify\<close>, the accuracy read off the confusion table, and the loop
  that tunes the smoothing constant. The notebook keeps its results in global
  variables; here each of them is a function of the training split, under the
  notebook's name.
\<close>

section \<open>Text cleaning\<close>

text \<open>
  The R notebook cleans every message with the same five-step pipe, once in the
  \<^verbatim>\<open>tidy_train\<close> chunk and once at the head of \<^verbatim>\<open>classify\<close>:
  \<^verbatim>\<open>
  str_to_lower(sms) %>% str_squish %>%
    str_replace_all("[[:punct:]]", "") %>%
    str_replace_all("[\u0094\u0092\u0096\n\t]", "") %>%
    str_replace_all("[[:digit:]]", "")
  \<close>
  A message is a \<^typ>\<open>string\<close> whose characters stand for the code points U+0000 to
  U+00FF. The character classes are those of the ICU engine behind stringr, cut down to
  that range: \<^verbatim>\<open>[[:punct:]]\<close> is the general category P (so the symbols
  \<^verbatim>\<open>$ + < = > ^ ` | ~\<close> stay), \<^verbatim>\<open>[[:digit:]]\<close> is the category Nd,
  and white space is the property \<^verbatim>\<open>White_Space\<close>.
\<close>

definition code :: "char \<Rightarrow> nat" where
  "code c = of_char c"

definition is_upper :: "char \<Rightarrow> bool" where
  "is_upper c = (let n = code c in (65 \<le> n \<and> n \<le> 90) \<or> (192 \<le> n \<and> n \<le> 222 \<and> n \<noteq> 215))"

definition to_lower :: "char \<Rightarrow> char" where
  "to_lower c = (if is_upper c then char_of (code c + 32) else c)"

definition str_to_lower :: "string \<Rightarrow> string" where
  "str_to_lower s = map to_lower s"

definition is_wspace :: "char \<Rightarrow> bool" where
  "is_wspace c = (code c \<in> set [9, 10, 11, 12, 13, 32, 133, 160])"

definition is_punct :: "char \<Rightarrow> bool" where
  "is_punct c = (code c \<in> set [33, 34, 35, 37, 38, 39, 40, 41, 42, 44, 45, 46, 47, 58, 59,
     63, 64, 91, 92, 93, 95, 123, 125, 161, 167, 171, 182, 183, 187, 191])"

definition is_weird :: "char \<Rightarrow> bool" where
  \<comment> \<open>the class \<^verbatim>\<open>[\u0094\u0092\u0096\n\t]\<close>\<close>
  "is_weird c = (code c \<in> set [148, 146, 150, 10, 9])"

definition is_digit :: "char \<Rightarrow> bool" where
  "is_digit c = (48 \<le> code c \<and> code c \<le> 57)"

text \<open>
  \<^verbatim>\<open>str_squish\<close> is \<^verbatim>\<open>stri_trim_both(str_replace_all(string, "\\s+", " "))\<close>:
  every maximal run of white space becomes one space, then white space is trimmed from
  both ends.
\<close>

function collapse_ws :: "string \<Rightarrow> string" where
  "collapse_ws [] = []"
| "collapse_ws (c # cs) =
     (if is_wspace c then CHR '' '' # collapse_ws (dropWhile is_wspace cs)
      else c # collapse_ws cs)"
  by pat_completeness auto
termination
  by (relation "measure length") (auto simp: length_dropWhile_le less_Suc_eq_le)

definition trim_both :: "string \<Rightarrow> string" where
  "trim_both s = rev (dropWhile is_wspace (rev (dropWhile is_wspace s)))"

definition str_squish :: "string \<Rightarrow> string" where
  "str_squish s = trim_both (collapse_ws s)"

definition str_remove_all :: "(char \<Rightarrow> bool) \<Rightarrow> string \<Rightarrow> string" where
  \<comment> \<open>\<^verbatim>\<open>str_replace_all(s, "[class]", "")\<close>\<close>
  "str_remove_all cls s = filter (\<lambda>c. \<not> cls c) s"

definition clean_message :: "string \<Rightarrow> string" where
  "clean_message message =
     str_remove_all is_digit
       (str_remove_all is_weird
         (str_remove_all is_punct
           (str_squish (str_to_lower message))))"

text \<open>\<^verbatim>\<open>str_split(m, " ")[[1]]\<close>: the pieces between single spaces, empty pieces kept.\<close>

fun str_split :: "string \<Rightarrow> string list" where
  "str_split [] = [[]]"
| "str_split (c # cs) =
     (if c = CHR '' '' then [] # str_split cs
      else (case str_split cs of [] \<Rightarrow> [[c]] | w # ws \<Rightarrow> (c # w) # ws))"

section \<open>R numbers\<close>

text \<open>
  R computes the probabilities in doubles. A finite double is taken as the exact rational
  it stands for (no rounding, overflow or underflow); division by zero and the values
  it produces follow IEEE 754 as R does: \<^verbatim>\<open>x / 0\<close> is \<^verbatim>\<open>Inf\<close>,
  \<^verbatim>\<open>-Inf\<close> or \<^verbatim>\<open>NaN\<close>, \<^verbatim>\<open>0 * Inf\<close> is \<^verbatim>\<open>NaN\<close>, and a comparison
  with \<^verbatim>\<open>NaN\<close> is \<^verbatim>\<open>NA\<close> (here \<^term>\<open>None\<close>).
\<close>

datatype rnum = Fin rat | PInf | NInf | NaN

definition rdiv :: "rat \<Rightarrow> rat \<Rightarrow> rnum" where
  "rdiv a b =
     (if b \<noteq> 0 then Fin (a / b)
      else if 0 < a then PInf else if a < 0 then NInf else NaN)"

fun rmul :: "rnum \<Rightarrow> rnum \<Rightarrow> rnum" where
  "rmul NaN y = NaN"
| "rmul x NaN = NaN"
| "rmul (Fin a) (Fin b) = Fin (a * b)"
| "rmul (Fin a) PInf = (if a = 0 then NaN else if 0 < a then PInf else NInf)"
| "rmul (Fin a) NInf = (if a = 0 then NaN else if 0 < a then NInf else PInf)"
| "rmul PInf (Fin b) = (if b = 0 then NaN else if 0 < b then PInf else NInf)"
| "rmul NInf (Fin b) = (if b = 0 then NaN else if 0 < b then NInf else PInf)"
| "rmul PInf PInf = PInf"
| "rmul PInf NInf = NInf"
| "rmul NInf PInf = NInf"
| "rmul NInf NInf = PInf"

fun rge :: "rnum \<Rightarrow> rnum \<Rightarrow> bool option" where
  "rge NaN y = None"
| "rge x NaN = None"
| "rge (Fin a) (Fin b) = Some (b \<le> a)"
| "rge PInf y = Some True"
| "rge x NInf = Some True"
| "rge NInf y = Some False"
| "rge x PInf = Some False"

definition rprod :: "rnum list \<Rightarrow> rnum" where
  \<comment> \<open>\<^verbatim>\<open>prod(x)\<close>: the running product, starting from 1\<close>
  "rprod xs = foldl rmul (Fin 1) xs"

definition rmean :: "bool list \<Rightarrow> rnum" where
  \<comment> \<open>\<^verbatim>\<open>mean\<close> of a logical vector; \<^verbatim>\<open>mean(logical(0))\<close> is \<^verbatim>\<open>NaN\<close>\<close>
  "rmean bs = rdiv (of_nat (length (filter (\<lambda>b. b) bs))) (of_nat (length bs))"

section \<open>Training: vocabularies, constants and word counts\<close>

text \<open>
  The column \<^verbatim>\<open>label\<close> holds \<^verbatim>\<open>"ham"\<close> or \<^verbatim>\<open>"spam"\<close>; a split of the data
  is a list of rows \<open>(label, sms)\<close>. The errors are the R conditions that the modelled
  chunks can stop with.
\<close>

datatype label = Ham | Spam

type_synonym training = "(label \<times> string) list"

datatype r_error = Not_A_Vector | Object_Not_Found | Subscript_Out_Of_Bounds

fun unique :: "'a list \<Rightarrow> 'a list" where
  \<comment> \<open>R's \<^verbatim>\<open>unique\<close> keeps the first occurrence of every element\<close>
  "unique [] = []"
| "unique (x # xs) = x # unique (removeAll x xs)"

definition tidy_train :: "training \<Rightarrow> training" where
  "tidy_train spam_train = map (\<lambda>(l, sms). (l, clean_message sms)) spam_train"

text \<open>
  The notebook builds each of its three vocabularies with the same loop,
  \<^verbatim>\<open>for (m in messages) { words <- str_split(m, " ")[[1]]; vocabulary <- c(vocabulary, words) }\<close>,
  followed by \<^verbatim>\<open>unique\<close>.
\<close>

fun collect_words :: "string list \<Rightarrow> string list \<Rightarrow> string list" where
  "collect_words acc [] = acc"
| "collect_words acc (m # ms) = collect_words (acc @ str_split m) ms"

definition messages :: "training \<Rightarrow> string list" where
  "messages tr = map snd (tidy_train tr)"

definition vocabulary :: "training \<Rightarrow> string list" where
  "vocabulary tr = unique (collect_words [] (messages tr))"

definition class_mes :: "label \<Rightarrow> training \<Rightarrow> string list" where
  \<comment> \<open>\<^verbatim>\<open>tidy_train %>% filter(label == c) %>% pull(sms)\<close>\<close>
  "class_mes c tr = map snd (filter (\<lambda>(l, sms). l = c) (tidy_train tr))"

definition spam_mes :: "training \<Rightarrow> string list" where
  "spam_mes tr = class_mes Spam tr"

definition ham_mes :: "training \<Rightarrow> string list" where
  "ham_mes tr = class_mes Ham tr"

definition spam_voc :: "training \<Rightarrow> string list" where
  "spam_voc tr = unique (collect_words [] (spam_mes tr))"

definition ham_voc :: "training \<Rightarrow> string list" where
  "ham_voc tr = unique (collect_words [] (ham_mes tr))"

definition n_spam_voc :: "training \<Rightarrow> nat" where
  "n_spam_voc tr = length (spam_voc tr)"

definition n_ham_voc :: "training \<Rightarrow> nat" where
  "n_ham_voc tr = length (ham_voc tr)"

definition n_vocab :: "training \<Rightarrow> nat" where
  "n_vocab tr = length (vocabulary tr)"

definition p_spam :: "training \<Rightarrow> rnum" where
  "p_spam tr = rmean (map (\<lambda>(l, sms). l = Spam) (tidy_train tr))"

definition p_ham :: "training \<Rightarrow> rnum" where
  "p_ham tr = rmean (map (\<lambda>(l, sms). l = Ham) (tidy_train tr))"

text \<open>
  The count of a word in a class: for every message of the class the number of its
  tokens equal to the word, summed over the messages.

  For a class with no message the vocabulary is \<^verbatim>\<open>NULL\<close>, \<^verbatim>\<open>tibble(word = NULL)\<close>
  has no column, and \<^verbatim>\<open>map_int(word, ...)\<close> is then handed something that is not a
  vector: the chunk stops with an error and \<^verbatim>\<open>word_counts\<close> is never assigned.
\<close>

definition word_count :: "string list \<Rightarrow> string \<Rightarrow> nat" where
  "word_count mes w = sum_list (map (\<lambda>sm. length (filter (\<lambda>t. t = w) (str_split sm))) mes)"

definition class_counts :: "string list \<Rightarrow> string list \<Rightarrow> r_error + (string \<times> nat) list" where
  "class_counts voc mes =
     (if voc = [] then Inl Not_A_Vector else Inr (map (\<lambda>w. (w, word_count mes w)) voc))"

definition spam_counts :: "training \<Rightarrow> r_error + (string \<times> nat) list" where
  "spam_counts tr = class_counts (spam_voc tr) (spam_mes tr)"

definition ham_counts :: "training \<Rightarrow> r_error + (string \<times> nat) list" where
  "ham_counts tr = class_counts (ham_voc tr) (ham_mes tr)"

text \<open>
  \<^verbatim>\<open>full_join(x, y, by = "word")\<close>: the rows of \<^verbatim>\<open>x\<close> in order, each with the count
  of its word in \<^verbatim>\<open>y\<close> (\<^verbatim>\<open>NA\<close> when \<^verbatim>\<open>y\<close> has no such word), then the rows of
  \<^verbatim>\<open>y\<close> whose word \<^verbatim>\<open>x\<close> does not have. Both tables hold every word once. The
  following \<^verbatim>\<open>mutate\<close> turns each \<^verbatim>\<open>NA\<close> into 0.
\<close>

definition full_join ::
  "(string \<times> nat) list \<Rightarrow> (string \<times> nat) list \<Rightarrow> (string \<times> nat option \<times> nat option) list" where
  "full_join x y =
     map (\<lambda>(w, sc). (w, Some sc, map_of y w)) x @
     map (\<lambda>(w, hc). (w, None, Some hc)) (filter (\<lambda>(w, hc). w \<notin> fst ` set x) y)"

record count_row =
  word :: string
  spam_count :: nat
  ham_count :: nat

definition fill_na :: "string \<times> nat option \<times> nat option \<Rightarrow> count_row" where
  "fill_na r = (case r of (w, sc, hc) \<Rightarrow>
     \<lparr>word = w,
      spam_count = (case sc of None \<Rightarrow> 0 | Some n \<Rightarrow> n),
      ham_count = (case hc of None \<Rightarrow> 0 | Some n \<Rightarrow> n)\<rparr>)"

definition word_counts :: "training \<Rightarrow> r_error + count_row list" where
  "word_counts tr =
     (case spam_counts tr of
        Inl e \<Rightarrow> Inl e
      | Inr sc \<Rightarrow>
          (case ham_counts tr of
             Inl e \<Rightarrow> Inl e
           | Inr hc \<Rightarrow> Inr (map fill_na (full_join sc hc))))"

section \<open>Classification\<close>

definition setdiff :: "'a list \<Rightarrow> 'a list \<Rightarrow> 'a list" where
  "setdiff xs ys = unique (filter (\<lambda>x. x \<notin> set ys) xs)"

definition word_prob :: "nat \<Rightarrow> nat \<Rightarrow> nat \<Rightarrow> rat \<Rightarrow> rnum" where
  \<comment> \<open>\<^verbatim>\<open>(count + alpha) / (n_class_voc + alpha * n_vocab)\<close>\<close>
  "word_prob cnt n_c_voc n_voc alpha = rdiv (of_nat cnt + alpha) (of_nat n_c_voc + alpha * of_nat n_voc)"

record prob_row =
  pword :: string
  spam_prob :: rnum
  ham_prob :: rnum

definition new_word_probs :: "training \<Rightarrow> string list \<Rightarrow> prob_row list" where
  \<comment> \<open>the vocabulary words that the message does not have, with probability 1 each\<close>
  "new_word_probs tr words =
     map (\<lambda>w. \<lparr>pword = w, spam_prob = Fin 1, ham_prob = Fin 1\<rparr>) (setdiff (vocabulary tr) words)"

definition present_probs :: "training \<Rightarrow> count_row list \<Rightarrow> string list \<Rightarrow> rat \<Rightarrow> prob_row list" where
  \<comment> \<open>\<^verbatim>\<open>word_counts %>% filter(word %in% words) %>% mutate(spam_prob = ..., ham_prob = ...)\<close>\<close>
  "present_probs tr wc words alpha =
     map (\<lambda>r. \<lparr>pword = word r,
               spam_prob = word_prob (spam_count r) (n_spam_voc tr) (n_vocab tr) alpha,
               ham_prob = word_prob (ham_count r) (n_ham_voc tr) (n_vocab tr) alpha\<rparr>)
         (filter (\<lambda>r. word r \<in> set words) wc)"

text \<open>
  The two scores of \<^verbatim>\<open>classify\<close>: the rows of the present words and of the absent
  vocabulary words are bound together, the probabilities of each class multiplied, and
  the product multiplied by the prior. For a trained table the bound rows are never
  empty, since every vocabulary word is in one of the two parts. When
  \<^verbatim>\<open>word_counts\<close> was never assigned the call stops with an error.
\<close>

definition word_scores :: "training \<Rightarrow> count_row list \<Rightarrow> string list \<Rightarrow> rat \<Rightarrow> rnum \<times> rnum" where
  "word_scores tr wc words alpha =
     (let rows = present_probs tr wc words alpha @ new_word_probs tr words
      in (rmul (p_spam tr) (rprod (map spam_prob rows)),
          rmul (p_ham tr) (rprod (map ham_prob rows))))"

definition scores :: "training \<Rightarrow> string \<Rightarrow> rat \<Rightarrow> r_error + (rnum \<times> rnum)" where
  "scores tr message alpha =
     (case word_counts tr of
        Inl e \<Rightarrow> Inl Object_Not_Found
      | Inr wc \<Rightarrow> Inr (word_scores tr wc (str_split (clean_message message)) alpha))"

definition classify :: "training \<Rightarrow> string \<Rightarrow> rat \<Rightarrow> r_error + label option" where
  \<comment> \<open>\<^verbatim>\<open>ifelse(p_spam_given_message >= p_ham_given_message, "spam", "ham")\<close>; \<^term>\<open>None\<close> is \<^verbatim>\<open>NA\<close>\<close>
  "classify tr message alpha =
     (case scores tr message alpha of
        Inl e \<Rightarrow> Inl e
      | Inr (s, h) \<Rightarrow>
          Inr (case rge s h of None \<Rightarrow> None | Some b \<Rightarrow> Some (if b then Spam else Ham)))"

section \<open>Accuracy and the tuning loop\<close>

text \<open>
  \<^verbatim>\<open>table(data$label, data$prediction)\<close> has one row for every label that occurs and
  one column for every predicted label that occurs, each in alphabetical order
  (\<^verbatim>\<open>"ham"\<close> before \<^verbatim>\<open>"spam"\<close>); pairs with an \<^verbatim>\<open>NA\<close> are not counted. Reading a
  cell beyond the table's extent is the error \<^verbatim>\<open>subscript out of bounds\<close>.
\<close>

definition levels :: "label list \<Rightarrow> label list" where
  "levels xs = filter (\<lambda>l. l \<in> set xs) [Ham, Spam]"

definition row_levels :: "(label \<times> label option) list \<Rightarrow> label list" where
  "row_levels rows = levels (map fst rows)"

definition col_levels :: "(label \<times> label option) list \<Rightarrow> label list" where
  "col_levels rows = levels (concat (map (\<lambda>(l, p). case p of None \<Rightarrow> [] | Some q \<Rightarrow> [q]) rows))"

definition confusion :: "(label \<times> label option) list \<Rightarrow> nat \<Rightarrow> nat \<Rightarrow> r_error + nat" where
  "confusion rows i j =
     (if 1 \<le> i \<and> i \<le> length (row_levels rows) \<and> 1 \<le> j \<and> j \<le> length (col_levels rows)
      then Inr (length (filter (\<lambda>(l, p). l = row_levels rows ! (i - 1) \<and>
                                          p = Some (col_levels rows ! (j - 1))) rows))
      else Inl Subscript_Out_Of_Bounds)"

definition accuracy :: "(label \<times> label option) list \<Rightarrow> r_error + rat" where
  \<comment> \<open>\<^verbatim>\<open>(confusion[1,1] + confusion[2,2]) / nrow(data)\<close>\<close>
  "accuracy rows =
     (case confusion rows 1 1 of
        Inl e \<Rightarrow> Inl e
      | Inr a \<Rightarrow>
          (case confusion rows 2 2 of
             Inl e \<Rightarrow> Inl e
           | Inr b \<Rightarrow> Inr (of_nat (a + b) / of_nat (length rows))))"




section \<open>The specification's quantities\<close>

text \<open>
  The specification's count of a word in a class: the number of token slots, over all
  the cleaned messages of the class, that hold the word.
\<close>

definition token_slots :: "string list \<Rightarrow> string \<Rightarrow> nat" where
  "token_slots mes w = count_list (concat (map str_split mes)) w"


text \<open>The training set of the specification's first end-to-end scenario.\<close>

definition scenario_train :: training where
  "scenario_train =
     [(Ham, ''Hello how are you''), (Spam, ''WIN money now''), (Ham, ''See you tomorrow'')]"

text \<open>A training set in which a word is repeated within one message.\<close>

definition repeat_train :: training where
  "repeat_train = [(Spam, ''win win win''), (Ham, ''hi'')]"


text \<open>A training set with a message that cleaning leaves empty.\<close>

definition blank_train :: training where
  "blank_train = [(Ham, ''12!?''), (Spam, ''win'')]"

text \<open>
  A string is squished when each of its white-space characters is a space that is
  followed by no other white-space character.
\<close>

fun squished :: "string \<Rightarrow> bool" where
  "squished [] = True"
| "squished [c] = (is_wspace c \<longrightarrow> c = CHR '' '')"
| "squished (c # d # cs) = ((is_wspace c \<longrightarrow> c = CHR '' '' \<and> \<not> is_wspace d) \<and> squished (d # cs))"

text \<open>
  The joined table in closed form: one row for every word of the spam vocabulary, then
  one for every other word of the ham vocabulary, each with its two counts.
\<close>

definition count_rows :: "training \<Rightarrow> count_row list" where
  "count_rows tr =
     map (\<lambda>w. \<lparr>word = w, spam_count = word_count (spam_mes tr) w, ham_count = word_count (ham_mes tr) w\<rparr>)
       (spam_voc tr @ filter (\<lambda>w. w \<notin> set (spam_voc tr)) (ham_voc tr))"



section \<open>Properties of the cleaning pipe\<close>

lemma code_to_lower: "code (to_lower c) = (if is_upper c then code c + 32 else code c)"
  by (auto simp: to_lower_def is_upper_def code_def Let_def)

lemma to_lower_idem: "to_lower (to_lower c) = to_lower c"
proof -
  have "\<not> is_upper (to_lower c)"
    unfolding is_upper_def Let_def code_to_lower
    by (auto simp: is_upper_def Let_def)
  then show ?thesis by (simp add: to_lower_def)
qed

lemma to_lower_space: "to_lower CHR '' '' = CHR '' ''"
  by (simp add: to_lower_def is_upper_def code_def)

lemma space_class:
  "is_wspace CHR '' ''" "\<not> is_punct CHR '' ''" "\<not> is_weird CHR '' ''" "\<not> is_digit CHR '' ''"
  by (simp_all add: is_wspace_def is_punct_def is_weird_def is_digit_def code_def)

lemma set_collapse_ws: "set (collapse_ws s) \<subseteq> insert CHR '' '' (set s)"
proof (induction s rule: collapse_ws.induct)
  case 1
  then show ?case by simp
next
  case (2 c cs)
  show ?case
  proof (cases "is_wspace c")
    case True
    with 2 have "set (collapse_ws (dropWhile is_wspace cs)) \<subseteq> insert CHR '' '' (set (dropWhile is_wspace cs))"
      by simp
    moreover have "set (dropWhile is_wspace cs) \<subseteq> set cs"
      by (meson set_dropWhileD subsetI)
    ultimately show ?thesis using True by auto
  next
    case False
    with 2 show ?thesis by auto
  qed
qed

lemma set_trim_both: "set (trim_both s) \<subseteq> set s"
  unfolding trim_both_def
  by (metis set_dropWhileD set_rev subsetI)

lemma set_str_squish: "set (str_squish s) \<subseteq> insert CHR '' '' (set s)"
  unfolding str_squish_def using set_trim_both set_collapse_ws by blast

lemma clean_chars:
  assumes "c \<in> set (clean_message s)"
  shows "to_lower c = c \<and> \<not> is_punct c \<and> \<not> is_weird c \<and> \<not> is_digit c"
proof -
  from assms have f: "\<not> is_punct c" "\<not> is_weird c" "\<not> is_digit c"
    and m: "c \<in> set (str_squish (str_to_lower s))"
    by (auto simp: clean_message_def str_remove_all_def)
  from m set_str_squish have "c = CHR '' '' \<or> c \<in> set (str_to_lower s)" by blast
  then have "to_lower c = c"
    by (auto simp: to_lower_space str_to_lower_def to_lower_idem)
  with f show ?thesis by simp
qed

lemma clean_clean: "clean_message (clean_message s) = str_squish (clean_message s)"
proof -
  let ?n = "clean_message s"
  have low: "str_to_lower ?n = ?n"
    unfolding str_to_lower_def using clean_chars by (simp add: map_idI)
  have keep: "\<not> is_punct c \<and> \<not> is_weird c \<and> \<not> is_digit c" if "c \<in> set (str_squish ?n)" for c
  proof -
    from that set_str_squish have "c = CHR '' '' \<or> c \<in> set ?n" by blast
    then show ?thesis using clean_chars space_class by blast
  qed
  have "clean_message ?n =
      str_remove_all is_digit (str_remove_all is_weird (str_remove_all is_punct (str_squish ?n)))"
    by (simp add: clean_message_def [of ?n] low)
  also have "\<dots> = str_squish ?n"
    using keep by (simp add: str_remove_all_def)
  finally show ?thesis .
qed

lemma space_ws: "is_wspace CHR '' ''"
  by (simp add: is_wspace_def code_def)

lemma collapse_ws_head: "s = [] \<or> \<not> is_wspace (hd s) \<Longrightarrow> collapse_ws s = [] \<or> \<not> is_wspace (hd (collapse_ws s))"
  by (cases s) auto

lemma dropWhile_head: "dropWhile P xs = [] \<or> \<not> P (hd (dropWhile P xs))"
  using hd_dropWhile by blast

lemma squished_collapse_ws: "squished (collapse_ws s)"
proof (induction s rule: collapse_ws.induct)
  case 1
  then show ?case by simp
next
  case (2 c cs)
  show ?case
  proof (cases "is_wspace c")
    case True
    let ?X = "collapse_ws (dropWhile is_wspace cs)"
    from True 2 have sq: "squished ?X" by simp
    have hd: "?X = [] \<or> \<not> is_wspace (hd ?X)"
      using collapse_ws_head dropWhile_head by blast
    from sq hd have "squished (CHR '' '' # ?X)" by (cases ?X) auto
    with True show ?thesis by simp
  next
    case False
    with 2 have "squished (collapse_ws cs)" by simp
    with False have "squished (c # collapse_ws cs)" by (cases "collapse_ws cs") auto
    with False show ?thesis by simp
  qed
qed

lemma collapse_ws_squished: "squished t \<Longrightarrow> collapse_ws t = t"
proof (induction t rule: squished.induct)
  case 1
  then show ?case by simp
next
  case (2 c)
  then show ?case by simp
next
  case (3 c d cs)
  then show ?case by auto
qed

lemma squished_prefix: "squished (p @ ys) \<Longrightarrow> squished p"
proof (induction p rule: squished.induct)
  case 1
  then show ?case by simp
next
  case (2 c)
  then show ?case by (cases ys) auto
next
  case (3 c d cs)
  then show ?case by auto
qed

lemma squished_suffix: "squished (p @ ys) \<Longrightarrow> squished ys"
proof (induction p)
  case Nil
  then show ?case by simp
next
  case (Cons a p)
  then show ?case by (cases "p @ ys") auto
qed

lemma drop_end_prefix: "\<exists>ys. xs = rev (dropWhile P (rev xs)) @ ys"
proof -
  have "rev xs = takeWhile P (rev xs) @ dropWhile P (rev xs)" by simp
  then have "xs = rev (dropWhile P (rev xs)) @ rev (takeWhile P (rev xs))"
    by (metis rev_append rev_rev_ident)
  then show ?thesis by blast
qed

lemma drop_front_suffix: "\<exists>ys. xs = ys @ dropWhile P xs"
  by (metis takeWhile_dropWhile_id)

lemma squished_trim_both: "squished t \<Longrightarrow> squished (trim_both t)"
proof -
  assume t: "squished t"
  obtain p where "t = p @ dropWhile is_wspace t" using drop_front_suffix by blast
  with t have a: "squished (dropWhile is_wspace t)" using squished_suffix by metis
  obtain q where "dropWhile is_wspace t = trim_both t @ q"
    unfolding trim_both_def using drop_end_prefix by blast
  with a show ?thesis using squished_prefix by metis
qed

lemma trim_both_idem: "trim_both (trim_both t) = trim_both t"
proof -
  let ?y = "dropWhile is_wspace t"
  let ?u = "trim_both t"
  have ru: "rev ?u = dropWhile is_wspace (rev ?y)" by (simp add: trim_both_def)
  obtain q where q: "?y = ?u @ q"
    unfolding trim_both_def using drop_end_prefix by blast
  have "?u = [] \<or> \<not> is_wspace (hd ?u)"
  proof (cases "?u = []")
    case True
    then show ?thesis by simp
  next
    case False
    with q have "hd ?u = hd ?y" "?y \<noteq> []" by (metis hd_append2, auto)
    then show ?thesis using hd_dropWhile by metis
  qed
  then have front: "dropWhile is_wspace ?u = ?u" by (cases ?u) auto
  have "rev ?u = [] \<or> \<not> is_wspace (hd (rev ?u))"
    unfolding ru using dropWhile_head by blast
  then have bk: "dropWhile is_wspace (rev ?u) = rev ?u" by (cases "rev ?u") auto
  have "trim_both ?u = rev (dropWhile is_wspace (rev (dropWhile is_wspace ?u)))"
    by (simp add: trim_both_def [of ?u])
  also have "\<dots> = ?u" by (simp add: front bk)
  finally show ?thesis .
qed

lemma str_squish_idem: "str_squish (str_squish s) = str_squish s"
proof -
  have "squished (str_squish s)"
    unfolding str_squish_def by (rule squished_trim_both [OF squished_collapse_ws])
  then have "collapse_ws (str_squish s) = str_squish s" by (rule collapse_ws_squished)
  then have "str_squish (str_squish s) = trim_both (str_squish s)"
    by (simp add: str_squish_def [of "str_squish s"])
  also have "\<dots> = str_squish s"
    by (simp add: str_squish_def [of s] trim_both_idem)
  finally show ?thesis .
qed

lemma clean_a1b: "clean_message ''a 1 b'' = ''a  b''"
  by code_simp

lemma squish_a_b: "str_squish ''a  b'' = ''a b''"
  by code_simp

text \<open>
  Claim C4, as stated: cleaning is idempotent. It is not. Digits are removed after
  the white space has been squished, so \<^verbatim>\<open>"a 1 b"\<close> cleans to \<^verbatim>\<open>"a  b"\<close> with
  two spaces, and cleaning that once more squishes it to \<^verbatim>\<open>"a b"\<close>.
\<close>

theorem clean_message_not_idempotent:
  "clean_message (clean_message ''a 1 b'') \<noteq> clean_message ''a 1 b''"
proof -
  have "clean_message (clean_message ''a 1 b'') = str_squish (clean_message ''a 1 b'')"
    by (rule clean_clean)
  then have "clean_message (clean_message ''a 1 b'') = ''a b''"
    by (simp only: clean_a1b squish_a_b)
  then show ?thesis by (simp add: clean_a1b)
qed

text \<open>
  Claim C4, amended: cleaning a cleaned string only squishes it. So a second cleaning
  changes nothing exactly when the cleaned string is already squished, and from the
  second application on cleaning is a no-op.
\<close>

theorem clean_message_twice:
  "clean_message (clean_message s) = str_squish (clean_message s) \<and>
   (clean_message (clean_message s) = clean_message s \<longleftrightarrow> str_squish (clean_message s) = clean_message s) \<and>
   clean_message (clean_message (clean_message s)) = clean_message (clean_message s)"
proof -
  have "clean_message (clean_message (clean_message s)) = str_squish (clean_message (clean_message s))"
    by (rule clean_clean)
  also have "\<dots> = clean_message (clean_message s)"
    by (simp add: clean_clean str_squish_idem)
  finally show ?thesis by (simp add: clean_clean)
qed

theorem clean_message_twice_witness:
  "clean_message (clean_message ''a 1 b'') = str_squish (clean_message ''a 1 b'') \<and>
   clean_message (clean_message ''a 1 b'') = ''a b''"
proof -
  have "clean_message (clean_message ''a 1 b'') = str_squish (clean_message ''a 1 b'')"
    using clean_message_twice [of "''a 1 b''"] by simp
  then show ?thesis by (simp only: clean_a1b squish_a_b)
qed

section \<open>Properties of training\<close>

lemma collect_words_eq: "collect_words acc ms = acc @ concat (map str_split ms)"
  by (induction ms arbitrary: acc) auto

lemma set_unique: "set (unique xs) = set xs"
  by (induction xs rule: unique.induct) auto

lemma distinct_unique: "distinct (unique xs)"
  by (induction xs rule: unique.induct) (auto simp: set_unique)

lemma unique_Nil_iff: "unique xs = [] \<longleftrightarrow> xs = []"
  by (cases xs) auto

lemma str_split_not_Nil: "str_split s \<noteq> []"
  by (induction s) (auto split: list.splits)

lemma tokens_Nil_iff: "concat (map str_split ms) = [] \<longleftrightarrow> ms = []"
  by (cases ms) (auto simp: str_split_not_Nil)

lemma class_voc_Nil_iff: "unique (collect_words [] mes) = [] \<longleftrightarrow> mes = []"
  using tokens_Nil_iff [of mes] by (simp add: unique_Nil_iff collect_words_eq del: concat_eq_Nil_conv)

lemma set_voc: "set (unique (collect_words [] mes)) = (\<Union>m\<in>set mes. set (str_split m))"
  by (simp add: set_unique collect_words_eq)

lemma set_vocabulary: "set (vocabulary tr) = set (spam_voc tr) \<union> set (ham_voc tr)"
proof -
  have "set (messages tr) = set (spam_mes tr) \<union> set (ham_mes tr)"
  proof -
    have "\<And>l. l = Spam \<or> l = Ham" by (metis label.exhaust)
    then show ?thesis
      by (auto simp: messages_def spam_mes_def ham_mes_def class_mes_def)
  qed
  then show ?thesis
    by (simp add: vocabulary_def spam_voc_def ham_voc_def set_voc)
qed

lemma length_filter_eq_count: "length (filter (\<lambda>t. t = w) xs) = count_list xs w"
  by (induction xs) auto

lemma word_count_token_slots: "word_count mes w = token_slots mes w"
  by (induction mes) (auto simp: word_count_def token_slots_def length_filter_eq_count)

lemma word_count_zero: "w \<notin> set (unique (collect_words [] mes)) \<Longrightarrow> word_count mes w = 0"
  by (simp add: word_count_token_slots token_slots_def set_unique collect_words_eq)

lemma map_of_graph: "map_of (map (\<lambda>w. (w, f w)) ys) w = (if w \<in> set ys then Some (f w) else None)"
  by (induction ys) auto

lemma word_counts_Inr:
  assumes "word_counts tr = Inr wc"
  shows "spam_mes tr \<noteq> []" and "ham_mes tr \<noteq> []" and "wc = count_rows tr"
proof -
  from assms have sv: "spam_voc tr \<noteq> []" and hv: "ham_voc tr \<noteq> []"
    by (auto simp: word_counts_def spam_counts_def ham_counts_def class_counts_def
        split: sum.splits if_splits)
  from sv show "spam_mes tr \<noteq> []" by (simp add: spam_voc_def class_voc_Nil_iff)
  from hv show "ham_mes tr \<noteq> []" by (simp add: ham_voc_def class_voc_Nil_iff)
  from assms sv hv
  have "wc = map fill_na (full_join (map (\<lambda>w. (w, word_count (spam_mes tr) w)) (spam_voc tr))
                                    (map (\<lambda>w. (w, word_count (ham_mes tr) w)) (ham_voc tr)))"
    by (simp add: word_counts_def spam_counts_def ham_counts_def class_counts_def)
  also have "\<dots> = count_rows tr"
    using word_count_zero [of _ "spam_mes tr"] word_count_zero [of _ "ham_mes tr"]
    by (auto simp: full_join_def fill_na_def count_rows_def map_of_graph filter_map o_def
        image_image spam_voc_def ham_voc_def)
  finally show "wc = count_rows tr" .
qed

lemma word_counts_Inr_iff:
  "word_counts tr = Inr wc \<longleftrightarrow> spam_mes tr \<noteq> [] \<and> ham_mes tr \<noteq> [] \<and> wc = count_rows tr"
proof
  assume "word_counts tr = Inr wc"
  then show "spam_mes tr \<noteq> [] \<and> ham_mes tr \<noteq> [] \<and> wc = count_rows tr"
    using word_counts_Inr by blast
next
  assume a: "spam_mes tr \<noteq> [] \<and> ham_mes tr \<noteq> [] \<and> wc = count_rows tr"
  then have "spam_voc tr \<noteq> []" "ham_voc tr \<noteq> []"
    by (simp_all add: spam_voc_def ham_voc_def class_voc_Nil_iff)
  then obtain wc' where "word_counts tr = Inr wc'"
    by (simp add: word_counts_def spam_counts_def ham_counts_def class_counts_def)
  then show "word_counts tr = Inr wc" using a word_counts_Inr(3) by simp
qed

lemma words_count_rows: "map word (count_rows tr) = spam_voc tr @ filter (\<lambda>w. w \<notin> set (spam_voc tr)) (ham_voc tr)"
  by (simp add: count_rows_def o_def)

lemma set_words_count_rows: "word ` set (count_rows tr) = set (vocabulary tr)"
proof -
  have "word ` set (count_rows tr) = set (map word (count_rows tr))" by simp
  also have "\<dots> = set (vocabulary tr)"
    unfolding words_count_rows set_vocabulary by auto
  finally show ?thesis .
qed

lemma distinct_words_count_rows: "distinct (map word (count_rows tr))"
  unfolding words_count_rows
  by (auto simp: spam_voc_def ham_voc_def distinct_unique)

lemma count_rows_counts:
  "r \<in> set (count_rows tr) \<Longrightarrow>
     spam_count r = word_count (spam_mes tr) (word r) \<and> ham_count r = word_count (ham_mes tr) (word r)"
  by (auto simp: count_rows_def)

lemma word_counts_are_rows:
  assumes "word_counts tr = Inr wc"
  shows "distinct (map word wc)"
    and "\<forall>r\<in>set wc. spam_count r = token_slots (spam_mes tr) (word r) \<and>
                      ham_count r = token_slots (ham_mes tr) (word r)"
  using word_counts_Inr(3) [OF assms] distinct_words_count_rows count_rows_counts
  by (simp_all add: word_count_token_slots)

lemma trained_words:
  assumes "word_counts tr = Inr wc"
  shows "word ` set wc = set (vocabulary tr)"
  using word_counts_Inr(3) [OF assms] set_words_count_rows by simp

lemma trained_sizes:
  assumes "word_counts tr = Inr wc"
  shows "1 \<le> n_spam_voc tr" and "1 \<le> n_ham_voc tr" and "1 \<le> n_vocab tr" and "tr \<noteq> []"
proof -
  from assms have s: "spam_mes tr \<noteq> []" and h: "ham_mes tr \<noteq> []"
    using word_counts_Inr by blast+
  from s have sv: "spam_voc tr \<noteq> []" by (simp add: spam_voc_def class_voc_Nil_iff)
  from h have hv: "ham_voc tr \<noteq> []" by (simp add: ham_voc_def class_voc_Nil_iff)
  from sv show "1 \<le> n_spam_voc tr" by (cases "spam_voc tr") (simp_all add: n_spam_voc_def)
  from hv show "1 \<le> n_ham_voc tr" by (cases "ham_voc tr") (simp_all add: n_ham_voc_def)
  from sv have "set (vocabulary tr) \<noteq> {}" by (simp add: set_vocabulary)
  then show "1 \<le> n_vocab tr" by (cases "vocabulary tr") (simp_all add: n_vocab_def)
  from s show "tr \<noteq> []" by (auto simp: spam_mes_def class_mes_def tidy_train_def)
qed

lemma n_vocab_card: "n_vocab tr = card (set (vocabulary tr))"
  by (simp add: n_vocab_def vocabulary_def distinct_card distinct_unique)

lemma class_mes_member: "(l, sms) \<in> set tr \<Longrightarrow> clean_message sms \<in> set (class_mes l tr)"
  by (force simp: class_mes_def tidy_train_def)

lemma token_slots_pos: "m \<in> set mes \<Longrightarrow> w \<in> set (str_split m) \<Longrightarrow> 1 \<le> token_slots mes w"
proof -
  assume "m \<in> set mes" "w \<in> set (str_split m)"
  then have "w \<in> set (concat (map str_split mes))" by auto
  then have "count_list (concat (map str_split mes)) w \<noteq> 0"
    by (simp add: count_list_0_iff del: set_concat)
  then show ?thesis by (simp add: token_slots_def)
qed

lemma filter_distinct_key:
  "distinct (map f xs) \<Longrightarrow> x \<in> set xs \<Longrightarrow> filter (\<lambda>y. f y = f x) xs = [x]"
proof (induction xs)
  case Nil
  then show ?case by simp
next
  case (Cons a xs)
  show ?case
  proof (cases "a = x")
    case True
    with Cons.prems have "\<forall>y\<in>set xs. f y \<noteq> f x" by (metis distinct.simps(2) image_eqI list.simps(9) list.set_map)
    then have "filter (\<lambda>y. f y = f x) xs = []" by (simp add: filter_empty_conv)
    with True show ?thesis by simp
  next
    case False
    with Cons.prems have x: "x \<in> set xs" and "f a \<noteq> f x" by auto
    with Cons show ?thesis by simp
  qed
qed

lemma count_labels:
  "length (filter (\<lambda>(l, sms). l = Spam) tr) + length (filter (\<lambda>(l, sms). l = Ham) tr) = length (tr :: training)"
proof -
  have "(\<lambda>(l, sms). l = Ham) = (\<lambda>x :: label \<times> string. \<not> (case x of (l, sms) \<Rightarrow> l = Spam))"
    by (auto simp: fun_eq_iff) (metis label.exhaust)
  then show ?thesis
    using sum_length_filter_compl [of "\<lambda>(l, sms). l = Spam" tr] by simp
qed

lemma rmean_labels:
  "tr \<noteq> [] \<Longrightarrow> rmean (map (\<lambda>(l, sms). l = c) (tidy_train tr)) =
     Fin (of_nat (length (filter (\<lambda>(l, sms). l = c) tr)) / of_nat (length tr))"
proof -
  assume "tr \<noteq> []"
  moreover have "filter (\<lambda>b. b) (map (\<lambda>(l, sms). l = c) (tidy_train tr)) =
      map (\<lambda>(l, sms). l = c) (filter (\<lambda>(l, sms). l = c) tr)"
    by (induction tr) (auto simp: tidy_train_def)
  ultimately show ?thesis
    by (simp add: rmean_def rdiv_def tidy_train_def)
qed

section \<open>The example training sets\<close>

lemma repeat_tidy: "tidy_train repeat_train = [(Spam, ''win win win''), (Ham, ''hi'')]"
  unfolding repeat_train_def by code_simp

lemma repeat_mes: "spam_mes repeat_train = [''win win win'']" "ham_mes repeat_train = [''hi'']"
  "messages repeat_train = [''win win win'', ''hi'']"
  by (simp_all add: spam_mes_def ham_mes_def class_mes_def messages_def repeat_tidy)

lemma repeat_voc: "spam_voc repeat_train = [''win'']" "ham_voc repeat_train = [''hi'']"
  "vocabulary repeat_train = [''win'', ''hi'']"
  by (simp_all add: spam_voc_def ham_voc_def vocabulary_def repeat_mes)


lemma repeat_rows: "count_rows repeat_train =
    [\<lparr>word = ''win'', spam_count = 3, ham_count = 0\<rparr>, \<lparr>word = ''hi'', spam_count = 0, ham_count = 1\<rparr>]"
  by (simp add: count_rows_def repeat_voc repeat_mes word_count_def)

lemma repeat_word_counts: "word_counts repeat_train = Inr
    [\<lparr>word = ''win'', spam_count = 3, ham_count = 0\<rparr>, \<lparr>word = ''hi'', spam_count = 0, ham_count = 1\<rparr>]"
  by (simp add: word_counts_Inr_iff repeat_rows repeat_mes)

lemma repeat_priors: "p_spam repeat_train = Fin (1 / 2)" "p_ham repeat_train = Fin (1 / 2)"
  by (simp_all add: p_spam_def p_ham_def rmean_labels repeat_train_def)



lemma repeat_zzz_qqq: "str_split (clean_message ''zzz qqq'') = [''zzz'', ''qqq'']"
  by code_simp








lemma blank_tidy: "tidy_train blank_train = [(Ham, []), (Spam, ''win'')]"
  unfolding blank_train_def by code_simp

lemma blank_mes: "spam_mes blank_train = [''win'']" "ham_mes blank_train = [[]]"
  "messages blank_train = [[], ''win'']"
  by (simp_all add: spam_mes_def ham_mes_def class_mes_def messages_def blank_tidy)

lemma blank_voc: "spam_voc blank_train = [''win'']" "ham_voc blank_train = [[]]"
  "vocabulary blank_train = [[], ''win'']"
  by (simp_all add: spam_voc_def ham_voc_def vocabulary_def blank_mes)

lemma blank_n: "n_spam_voc blank_train = 1" "n_ham_voc blank_train = 1" "n_vocab blank_train = 2"
  by (simp_all add: n_spam_voc_def n_ham_voc_def n_vocab_def blank_voc)

lemma blank_word_counts: "word_counts blank_train = Inr
    [\<lparr>word = ''win'', spam_count = 1, ham_count = 0\<rparr>, \<lparr>word = [], spam_count = 0, ham_count = 1\<rparr>]"
  by (simp add: word_counts_Inr_iff count_rows_def blank_voc blank_mes word_count_def)

lemma blank_clean: "clean_message ''12!?'' = []"
  by code_simp

lemma scenario_tidy: "tidy_train scenario_train =
    [(Ham, ''hello how are you''), (Spam, ''win money now''), (Ham, ''see you tomorrow'')]"
  unfolding scenario_train_def by code_simp

lemma scenario_mes: "spam_mes scenario_train = [''win money now'']"
  "ham_mes scenario_train = [''hello how are you'', ''see you tomorrow'']"
  "messages scenario_train = [''hello how are you'', ''win money now'', ''see you tomorrow'']"
  by (simp_all add: spam_mes_def ham_mes_def class_mes_def messages_def scenario_tidy)

lemma scenario_split:
  "str_split ''hello how are you'' = [''hello'', ''how'', ''are'', ''you'']"
  "str_split ''win money now'' = [''win'', ''money'', ''now'']"
  "str_split ''see you tomorrow'' = [''see'', ''you'', ''tomorrow'']"
  by simp_all

lemma scenario_tokens: "collect_words [] (messages scenario_train) =
    [''hello'', ''how'', ''are'', ''you'', ''win'', ''money'', ''now'', ''see'', ''you'', ''tomorrow'']"
  by (simp only: scenario_mes collect_words.simps scenario_split append.simps)

lemma scenario_voc:
  "spam_voc scenario_train = [''win'', ''money'', ''now'']"
  "ham_voc scenario_train = [''hello'', ''how'', ''are'', ''you'', ''see'', ''tomorrow'']"
  "vocabulary scenario_train =
     [''hello'', ''how'', ''are'', ''you'', ''win'', ''money'', ''now'', ''see'', ''tomorrow'']"
proof -
  have "collect_words [] (spam_mes scenario_train) = [''win'', ''money'', ''now'']"
    by (simp only: scenario_mes collect_words.simps scenario_split append.simps)
  then show "spam_voc scenario_train = [''win'', ''money'', ''now'']"
    by (simp add: spam_voc_def)
  have "collect_words [] (ham_mes scenario_train) =
      [''hello'', ''how'', ''are'', ''you'', ''see'', ''you'', ''tomorrow'']"
    by (simp only: scenario_mes collect_words.simps scenario_split append.simps)
  then show "ham_voc scenario_train = [''hello'', ''how'', ''are'', ''you'', ''see'', ''tomorrow'']"
    by (simp add: ham_voc_def)
  show "vocabulary scenario_train =
     [''hello'', ''how'', ''are'', ''you'', ''win'', ''money'', ''now'', ''see'', ''tomorrow'']"
    by (simp add: vocabulary_def scenario_tokens)
qed

lemma scenario_n: "n_spam_voc scenario_train = 3" "n_ham_voc scenario_train = 6" "n_vocab scenario_train = 9"
  by (simp_all add: n_spam_voc_def n_ham_voc_def n_vocab_def scenario_voc)

lemma scenario_priors: "p_spam scenario_train = Fin (1 / 3)" "p_ham scenario_train = Fin (2 / 3)"
  by (simp_all add: p_spam_def p_ham_def rmean_labels scenario_train_def)

lemma scenario_win_money: "str_split (clean_message ''win money'') = [''win'', ''money'']"
  by code_simp

lemma scenario_word_counts: "word_counts scenario_train = Inr
     [\<lparr>word = ''win'', spam_count = 1, ham_count = 0\<rparr>,
      \<lparr>word = ''money'', spam_count = 1, ham_count = 0\<rparr>,
      \<lparr>word = ''now'', spam_count = 1, ham_count = 0\<rparr>,
      \<lparr>word = ''hello'', spam_count = 0, ham_count = 1\<rparr>,
      \<lparr>word = ''how'', spam_count = 0, ham_count = 1\<rparr>,
      \<lparr>word = ''are'', spam_count = 0, ham_count = 1\<rparr>,
      \<lparr>word = ''you'', spam_count = 0, ham_count = 2\<rparr>,
      \<lparr>word = ''see'', spam_count = 0, ham_count = 1\<rparr>,
      \<lparr>word = ''tomorrow'', spam_count = 0, ham_count = 1\<rparr>]"
  by (simp add: word_counts_Inr_iff count_rows_def scenario_voc scenario_mes word_count_def)

section \<open>Word counts\<close>

text \<open>
  Claim C5: every row of the joined table holds, for each class, the number of token
  slots of the class's cleaned messages that equal the row's word (occurrences, not
  messages); the table has exactly one row for every word of either class vocabulary,
  and a word that is not in a class's vocabulary has count 0 for that class.
\<close>

theorem word_counts_are_token_slots:
  assumes "word_counts tr = Inr wc"
  shows "word ` set wc = set (spam_voc tr) \<union> set (ham_voc tr) \<and> distinct (map word wc) \<and>
    (\<forall>r\<in>set wc.
       spam_count r = token_slots (spam_mes tr) (word r) \<and>
       ham_count r = token_slots (ham_mes tr) (word r) \<and>
       (word r \<notin> set (spam_voc tr) \<longrightarrow> spam_count r = 0) \<and>
       (word r \<notin> set (ham_voc tr) \<longrightarrow> ham_count r = 0))"
proof -
  from assms have wc: "wc = count_rows tr" by (rule word_counts_Inr(3))
  have "word ` set wc = set (spam_voc tr) \<union> set (ham_voc tr)"
    unfolding wc set_words_count_rows by (rule set_vocabulary)
  moreover have "distinct (map word wc)"
    unfolding wc by (rule distinct_words_count_rows)
  moreover have "spam_count r = token_slots (spam_mes tr) (word r) \<and>
       ham_count r = token_slots (ham_mes tr) (word r) \<and>
       (word r \<notin> set (spam_voc tr) \<longrightarrow> spam_count r = 0) \<and>
       (word r \<notin> set (ham_voc tr) \<longrightarrow> ham_count r = 0)" if "r \<in> set wc" for r
  proof -
    from that have c: "spam_count r = word_count (spam_mes tr) (word r)"
      "ham_count r = word_count (ham_mes tr) (word r)"
      unfolding wc using count_rows_counts by simp_all
    then show ?thesis
      using word_count_zero [of "word r" "spam_mes tr"] word_count_zero [of "word r" "ham_mes tr"]
      by (simp add: word_count_token_slots spam_voc_def ham_voc_def)
  qed
  ultimately show ?thesis by blast
qed

theorem word_counts_are_token_slots_witness:
  "word_counts repeat_train = Inr
     [\<lparr>word = ''win'', spam_count = 3, ham_count = 0\<rparr>, \<lparr>word = ''hi'', spam_count = 0, ham_count = 1\<rparr>] \<and>
   token_slots (spam_mes repeat_train) ''win'' = 3 \<and>
   token_slots (ham_mes repeat_train) ''win'' = 0 \<and>
   ''win'' \<notin> set (ham_voc repeat_train)"
  using word_counts_are_token_slots [OF repeat_word_counts]
  by (simp add: repeat_word_counts repeat_voc)

section \<open>The empty token\<close>

text \<open>
  Claim C9: empty tokens are never filtered out. A training message whose cleaned text
  is empty splits into the single empty token; that token is a word of the vocabulary
  and of its class's vocabulary, counts towards the vocabulary size, has a row with a
  count of at least 1 for its class in the joined table, and classifying such a message
  computes probabilities from exactly that row.
\<close>

theorem empty_token_is_a_word:
  assumes "(l, sms) \<in> set tr" and "clean_message sms = []"
  shows "str_split (clean_message sms) = [[]] \<and>
         [] \<in> set (vocabulary tr) \<and>
         [] \<in> set (if l = Spam then spam_voc tr else ham_voc tr) \<and>
         n_vocab tr = Suc (card (set (vocabulary tr) - {[]})) \<and>
         (word_counts tr = Inr wc \<longrightarrow>
            (\<exists>r\<in>set wc. word r = [] \<and>
               1 \<le> (if l = Spam then spam_count r else ham_count r) \<and>
               present_probs tr wc (str_split (clean_message sms)) alpha =
                 [\<lparr>pword = [],
                   spam_prob = word_prob (spam_count r) (n_spam_voc tr) (n_vocab tr) alpha,
                   ham_prob = word_prob (ham_count r) (n_ham_voc tr) (n_vocab tr) alpha\<rparr>]))"
proof -
  have tok: "str_split (clean_message sms) = [[]]" by (simp add: assms(2))
  from class_mes_member [OF assms(1)] have mem: "[] \<in> set (class_mes l tr)" by (simp add: assms(2))
  have cls: "[] \<in> set (if l = Spam then spam_voc tr else ham_voc tr)"
  proof (cases l)
    case Ham
    with mem show ?thesis by (force simp: ham_voc_def ham_mes_def set_voc)
  next
    case Spam
    with mem show ?thesis by (force simp: spam_voc_def spam_mes_def set_voc)
  qed
  then have voc: "[] \<in> set (vocabulary tr)" by (auto simp: set_vocabulary split: if_splits)
  have "card (set (vocabulary tr)) = Suc (card (set (vocabulary tr) - {[]}))"
    using voc card_Suc_Diff1 [of "set (vocabulary tr)" "[]"] by (simp del: card_Diff_singleton_if card_Diff_singleton)
  then have size: "n_vocab tr = Suc (card (set (vocabulary tr) - {[]}))" by (simp add: n_vocab_card)
  have row: "\<exists>r\<in>set wc. word r = [] \<and>
               1 \<le> (if l = Spam then spam_count r else ham_count r) \<and>
               present_probs tr wc (str_split (clean_message sms)) alpha =
                 [\<lparr>pword = [],
                   spam_prob = word_prob (spam_count r) (n_spam_voc tr) (n_vocab tr) alpha,
                   ham_prob = word_prob (ham_count r) (n_ham_voc tr) (n_vocab tr) alpha\<rparr>]"
    if t: "word_counts tr = Inr wc"
  proof -
    from voc trained_words [OF t] obtain r where r: "r \<in> set wc" "word r = []" by force
    note ts = word_counts_are_rows [OF t]
    have "1 \<le> (if l = Spam then spam_count r else ham_count r)"
    proof (cases l)
      case Ham
      with mem have "1 \<le> token_slots (ham_mes tr) []"
        using token_slots_pos [of "[]" "ham_mes tr" "[]"] by (simp add: ham_mes_def)
      with Ham r ts show ?thesis by simp
    next
      case Spam
      with mem have "1 \<le> token_slots (spam_mes tr) []"
        using token_slots_pos [of "[]" "spam_mes tr" "[]"] by (simp add: spam_mes_def)
      with Spam r ts show ?thesis by simp
    qed
    moreover have "filter (\<lambda>y. word y \<in> set (str_split (clean_message sms))) wc = [r]"
      using filter_distinct_key [of word wc r] ts r by (simp add: tok)
    then have "present_probs tr wc (str_split (clean_message sms)) alpha =
                 [\<lparr>pword = [],
                   spam_prob = word_prob (spam_count r) (n_spam_voc tr) (n_vocab tr) alpha,
                   ham_prob = word_prob (ham_count r) (n_ham_voc tr) (n_vocab tr) alpha\<rparr>]"
      by (simp add: present_probs_def r)
    ultimately show ?thesis using r by blast
  qed
  from tok voc cls size row show ?thesis by blast
qed

theorem empty_token_is_a_word_witness:
  "(Ham, ''12!?'') \<in> set blank_train \<and> clean_message ''12!?'' = [] \<and>
   word_counts blank_train = Inr
     [\<lparr>word = ''win'', spam_count = 1, ham_count = 0\<rparr>, \<lparr>word = [], spam_count = 0, ham_count = 1\<rparr>] \<and>
   [] \<in> set (vocabulary blank_train) \<and> n_vocab blank_train = 2 \<and>
   present_probs blank_train
     [\<lparr>word = ''win'', spam_count = 1, ham_count = 0\<rparr>, \<lparr>word = [], spam_count = 0, ham_count = 1\<rparr>]
     (str_split (clean_message ''12!?'')) 1 =
     [\<lparr>pword = [], spam_prob = Fin (1 / 3), ham_prob = Fin (2 / 3)\<rparr>]"
proof -
  have m: "(Ham, ''12!?'') \<in> set blank_train" by (simp add: blank_train_def)
  from empty_token_is_a_word [OF m blank_clean, of
      "[\<lparr>word = ''win'', spam_count = 1, ham_count = 0\<rparr>, \<lparr>word = [], spam_count = 0, ham_count = 1\<rparr>]" 1]
  have "[] \<in> set (vocabulary blank_train) \<and> n_vocab blank_train = 2 \<and>
     present_probs blank_train
     [\<lparr>word = ''win'', spam_count = 1, ham_count = 0\<rparr>, \<lparr>word = [], spam_count = 0, ham_count = 1\<rparr>]
     (str_split (clean_message ''12!?'')) 1 =
     [\<lparr>pword = [], spam_prob = Fin (1 / 3), ham_prob = Fin (2 / 3)\<rparr>]"
    by (simp add: blank_clean blank_word_counts blank_voc blank_n word_prob_def rdiv_def)
  with m blank_clean blank_word_counts show ?thesis by blast
qed

section \<open>Priors\<close>

text \<open>
  Claim C7: for a non-empty training set the two priors are the fractions of messages
  labelled spam and ham, and they sum to 1.
\<close>

theorem priors_sum_to_one:
  assumes "tr \<noteq> []"
  shows "p_spam tr = Fin (of_nat (length (filter (\<lambda>(l, sms). l = Spam) tr)) / of_nat (length tr)) \<and>
         p_ham tr = Fin (of_nat (length (filter (\<lambda>(l, sms). l = Ham) tr)) / of_nat (length tr)) \<and>
         of_nat (length (filter (\<lambda>(l, sms). l = Spam) tr)) / of_nat (length tr) +
         of_nat (length (filter (\<lambda>(l, sms). l = Ham) tr)) / of_nat (length tr) = (1 :: rat)"
proof -
  let ?s = "length (filter (\<lambda>(l, sms). l = Spam) tr)" and ?h = "length (filter (\<lambda>(l, sms). l = Ham) tr)"
  from assms have n: "(of_nat (length tr) :: rat) \<noteq> 0" by simp
  have "(of_nat ?s :: rat) + of_nat ?h = of_nat (length tr)"
    using count_labels [of tr] by (metis of_nat_add)
  then have "(of_nat ?s :: rat) / of_nat (length tr) + of_nat ?h / of_nat (length tr) = 1"
    using n by (simp add: add_divide_distrib [symmetric])
  then show ?thesis
    using assms by (simp add: p_spam_def p_ham_def rmean_labels)
qed

theorem priors_sum_to_one_witness:
  "scenario_train \<noteq> [] \<and> p_spam scenario_train = Fin (1 / 3) \<and> p_ham scenario_train = Fin (2 / 3)"
  using priors_sum_to_one [of scenario_train] by (simp add: scenario_train_def)

section \<open>Word probabilities\<close>







section \<open>Scores and the decision\<close>

lemma rmul_one: "rmul x (Fin 1) = x"
  by (cases x) simp_all

lemma foldl_rmul_ones: "\<forall>x\<in>set xs. x = Fin 1 \<Longrightarrow> foldl rmul a xs = a"
  by (induction xs arbitrary: a) (simp_all add: rmul_one)

lemma rprod_append_ones: "\<forall>x\<in>set ys. x = Fin 1 \<Longrightarrow> rprod (xs @ ys) = rprod xs"
  by (simp add: rprod_def foldl_rmul_ones)

lemma word_scores_present:
  "word_scores tr wc words alpha =
     (rmul (p_spam tr) (rprod (map spam_prob (present_probs tr wc words alpha))),
      rmul (p_ham tr) (rprod (map ham_prob (present_probs tr wc words alpha))))"
  by (simp add: word_scores_def Let_def new_word_probs_def rprod_append_ones)

lemma present_probs_cong:
  assumes "word ` set wc = V" and "set ws \<inter> V = set ws' \<inter> V"
  shows "present_probs tr wc ws alpha = present_probs tr wc ws' alpha"
proof -
  have "filter (\<lambda>r. word r \<in> set ws) wc = filter (\<lambda>r. word r \<in> set ws') wc"
  proof (rule filter_cong [OF refl])
    fix r assume "r \<in> set wc"
    with assms(1) have "word r \<in> V" by blast
    with assms(2) show "(word r \<in> set ws) = (word r \<in> set ws')" by blast
  qed
  then show ?thesis by (simp add: present_probs_def)
qed

lemma bound_rows_not_empty:
  assumes "word_counts tr = Inr wc"
  shows "present_probs tr wc words alpha @ new_word_probs tr words \<noteq> []"
proof (cases "set (vocabulary tr) \<subseteq> set words")
  case True
  from trained_sizes(3) [OF assms] obtain w where "w \<in> set (vocabulary tr)"
    by (cases "vocabulary tr") (auto simp: n_vocab_def)
  with True trained_words [OF assms] obtain r where "r \<in> set wc" "word r \<in> set words" by force
  then have "filter (\<lambda>r. word r \<in> set words) wc \<noteq> []" by (auto simp: filter_empty_conv)
  then show ?thesis by (simp add: present_probs_def)
next
  case False
  then have "setdiff (vocabulary tr) words \<noteq> []"
    by (auto simp: setdiff_def unique_Nil_iff filter_empty_conv)
  then show ?thesis by (simp add: new_word_probs_def)
qed

lemma present_probs_none:
  assumes "word ` set wc = V" and "set ws \<inter> V = {}"
  shows "present_probs tr wc ws alpha = []"
proof -
  have "filter (\<lambda>r. word r \<in> set ws) wc = []"
    using assms by (auto simp: filter_empty_conv)
  then show ?thesis by (simp add: present_probs_def)
qed

text \<open>
  Claim C2: a token that is not in the training vocabulary changes neither score: the
  scores of a token list depend only on which vocabulary words it holds, and a message
  with no token in the vocabulary scores exactly the two priors.
\<close>

theorem unseen_tokens_are_neutral:
  assumes "word_counts tr = Inr wc"
  shows "(u \<notin> set (vocabulary tr) \<longrightarrow>
            word_scores tr wc (ws @ u # ws') alpha = word_scores tr wc (ws @ ws') alpha) \<and>
         (set vs \<inter> set (vocabulary tr) = set vs' \<inter> set (vocabulary tr) \<longrightarrow>
            word_scores tr wc vs alpha = word_scores tr wc vs' alpha) \<and>
         (set (str_split (clean_message message)) \<inter> set (vocabulary tr) = {} \<longrightarrow>
            scores tr message alpha = Inr (p_spam tr, p_ham tr))"
proof -
  note V = trained_words [OF assms]
  have "word_scores tr wc (ws @ u # ws') alpha = word_scores tr wc (ws @ ws') alpha"
    if "u \<notin> set (vocabulary tr)"
  proof -
    from that have "set (ws @ u # ws') \<inter> set (vocabulary tr) = set (ws @ ws') \<inter> set (vocabulary tr)"
      by auto
    from present_probs_cong [OF V this] show ?thesis by (simp add: word_scores_present)
  qed
  moreover have "word_scores tr wc vs alpha = word_scores tr wc vs' alpha"
    if "set vs \<inter> set (vocabulary tr) = set vs' \<inter> set (vocabulary tr)"
    using present_probs_cong [OF V that] by (simp add: word_scores_present)
  moreover have "scores tr message alpha = Inr (p_spam tr, p_ham tr)"
    if "set (str_split (clean_message message)) \<inter> set (vocabulary tr) = {}"
    using present_probs_none [OF V that] assms
    by (simp add: scores_def word_scores_present rprod_def rmul_one)
  ultimately show ?thesis by blast
qed

theorem unseen_tokens_are_neutral_witness:
  "word_counts repeat_train = Inr
     [\<lparr>word = ''win'', spam_count = 3, ham_count = 0\<rparr>, \<lparr>word = ''hi'', spam_count = 0, ham_count = 1\<rparr>] \<and>
   ''zzz'' \<notin> set (vocabulary repeat_train) \<and>
   word_scores repeat_train
     [\<lparr>word = ''win'', spam_count = 3, ham_count = 0\<rparr>, \<lparr>word = ''hi'', spam_count = 0, ham_count = 1\<rparr>]
     [''win'', ''zzz'', ''hi''] 1 =
   word_scores repeat_train
     [\<lparr>word = ''win'', spam_count = 3, ham_count = 0\<rparr>, \<lparr>word = ''hi'', spam_count = 0, ham_count = 1\<rparr>]
     [''win'', ''hi''] 1 \<and>
   set [''qqq'', ''win''] \<inter> set (vocabulary repeat_train) = set [''win'', ''zzz''] \<inter> set (vocabulary repeat_train) \<and>
   word_scores repeat_train
     [\<lparr>word = ''win'', spam_count = 3, ham_count = 0\<rparr>, \<lparr>word = ''hi'', spam_count = 0, ham_count = 1\<rparr>]
     [''qqq'', ''win''] 1 =
   word_scores repeat_train
     [\<lparr>word = ''win'', spam_count = 3, ham_count = 0\<rparr>, \<lparr>word = ''hi'', spam_count = 0, ham_count = 1\<rparr>]
     [''win'', ''zzz''] 1 \<and>
   set (str_split (clean_message ''zzz qqq'')) \<inter> set (vocabulary repeat_train) = {} \<and>
   scores repeat_train ''zzz qqq'' 1 = Inr (Fin (1 / 2), Fin (1 / 2))"
  using unseen_tokens_are_neutral [OF repeat_word_counts,
      of "''zzz''" "[''win'']" "[''hi'']" 1 "[''qqq'', ''win'']" "[''win'', ''zzz'']" "''zzz qqq''"]
  by (simp add: repeat_word_counts repeat_voc repeat_zzz_qqq repeat_priors)








section \<open>The end-to-end scenario\<close>

lemma scenario_scores: "scores scenario_train ''win money'' 1 = Inr (Fin (1 / 108), Fin (2 / 675))"
  by (simp add: scores_def scenario_word_counts word_scores_present present_probs_def
      scenario_win_money word_prob_def scenario_n scenario_priors rprod_def rdiv_def)

lemma scenario_classify: "classify scenario_train ''win money'' 1 = Inr (Some Spam)"
  by (simp add: classify_def scenario_scores)

text \<open>
  Claim C6, as stated: the vocabulary is the nine listed words, has 10 words, and
  \<^verbatim>\<open>classify("win money", alpha = 1)\<close> is spam. The three cannot hold together: the
  vocabulary has 9 words.
\<close>

theorem scenario_not_ten_words:
  "\<not> (set (vocabulary scenario_train) =
        {''hello'', ''how'', ''are'', ''you'', ''win'', ''money'', ''now'', ''see'', ''tomorrow''} \<and>
      n_vocab scenario_train = 10 \<and>
      classify scenario_train ''win money'' 1 = Inr (Some Spam))"
  by (simp add: scenario_n)

text \<open>
  Claim C6, amended: the vocabulary is the nine listed words, so its size is 9; the 10
  is the number of tokens of the three cleaned messages, \<^verbatim>\<open>you\<close> occurring twice;
  and \<^verbatim>\<open>classify("win money", alpha = 1)\<close> is spam.
\<close>

theorem scenario_nine_words:
  "set (vocabulary scenario_train) =
     {''hello'', ''how'', ''are'', ''you'', ''win'', ''money'', ''now'', ''see'', ''tomorrow''} \<and>
   n_vocab scenario_train = 9 \<and>
   length (collect_words [] (messages scenario_train)) = 10 \<and>
   classify scenario_train ''win money'' 1 = Inr (Some Spam)"
proof -
  have "set (vocabulary scenario_train) =
     {''hello'', ''how'', ''are'', ''you'', ''win'', ''money'', ''now'', ''see'', ''tomorrow''}"
    by (simp only: scenario_voc list.set)
  moreover have "length (collect_words [] (messages scenario_train)) = 10"
    by (simp only: scenario_tokens) simp
  ultimately show ?thesis using scenario_n(3) scenario_classify by blast
qed

section \<open>Properties of the accuracy\<close>

lemma levels_cases:
  "levels xs = (if Ham \<in> set xs then [Ham] else []) @ (if Spam \<in> set xs then [Spam] else [])"
  by (simp add: levels_def)

lemma col_levels_member:
  "q \<in> set (concat (map (\<lambda>(l, p). case p of None \<Rightarrow> [] | Some q \<Rightarrow> [q]) rows)) \<longleftrightarrow> Some q \<in> snd ` set rows"
proof -
  have "q \<in> set (concat (map (\<lambda>(l, p). case p of None \<Rightarrow> [] | Some q \<Rightarrow> [q]) rows)) \<longleftrightarrow>
      (\<exists>l. (l, Some q) \<in> set rows)"
    by (induction rows) (auto split: option.splits)
  also have "\<dots> \<longleftrightarrow> Some q \<in> snd ` set rows" by force
  finally show ?thesis .
qed

lemma two_rows: "2 \<le> length (row_levels rows) \<longleftrightarrow> Ham \<in> fst ` set rows \<and> Spam \<in> fst ` set rows"
  by (simp add: row_levels_def levels_cases)

lemma two_cols: "2 \<le> length (col_levels rows) \<longleftrightarrow> Some Ham \<in> snd ` set rows \<and> Some Spam \<in> snd ` set rows"
proof -
  let ?ys = "concat (map (\<lambda>(l, p). case p of None \<Rightarrow> [] | Some q \<Rightarrow> [q]) rows)"
  have "2 \<le> length (levels ?ys) \<longleftrightarrow> Ham \<in> set ?ys \<and> Spam \<in> set ?ys"
    by (simp add: levels_cases del: set_concat)
  then show ?thesis
    unfolding col_levels_def col_levels_member .
qed

lemma two_levels: "2 \<le> length (levels xs) \<Longrightarrow> levels xs = [Ham, Spam]"
  by (simp add: levels_cases split: if_splits)

lemma accuracy_cases:
  "accuracy rows =
     (if 2 \<le> length (row_levels rows) \<and> 2 \<le> length (col_levels rows)
      then Inr (of_nat (length (filter (\<lambda>(l, p). l = Ham \<and> p = Some Ham) rows) +
                        length (filter (\<lambda>(l, p). l = Spam \<and> p = Some Spam) rows)) /
                of_nat (length rows))
      else Inl Subscript_Out_Of_Bounds)"
proof (cases "2 \<le> length (row_levels rows) \<and> 2 \<le> length (col_levels rows)")
  case True
  then have "row_levels rows = [Ham, Spam]" "col_levels rows = [Ham, Spam]"
    using two_levels by (simp_all add: row_levels_def col_levels_def)
  then show ?thesis by (simp add: accuracy_def confusion_def)
next
  case False
  then show ?thesis by (auto simp: accuracy_def confusion_def split: sum.splits)
qed

lemma diagonal_count:
  "length (filter (\<lambda>(l, p). l = Ham \<and> p = Some Ham) rows) +
   length (filter (\<lambda>(l, p). l = Spam \<and> p = Some Spam) rows) =
   length (filter (\<lambda>(l, p). p = Some l) rows)"
proof (induction rows)
  case Nil
  then show ?case by simp
next
  case (Cons r rows)
  obtain l p where r: "r = (l, p)" by (cases r)
  from Cons show ?case by (cases l) (auto simp: r)
qed

lemma accuracy_range:
  assumes "accuracy rows = Inr a"
  shows "0 \<le> a \<and> a \<le> 1 \<and> a = of_nat (length (filter (\<lambda>(l, p). p = Some l) rows)) / of_nat (length rows)"
proof -
  from assms have a: "a = of_nat (length (filter (\<lambda>(l, p). p = Some l) rows)) / of_nat (length rows)"
    by (simp add: accuracy_cases diagonal_count split: if_splits)
  have "length (filter (\<lambda>(l, p). p = Some l) rows) \<le> length rows" by (rule length_filter_le)
  then have "(of_nat (length (filter (\<lambda>(l, p). p = Some l) rows)) :: rat) \<le> of_nat (length rows)"
    by (simp only: of_nat_le_iff)
  then have "(of_nat (length (filter (\<lambda>(l, p). p = Some l) rows)) :: rat) / of_nat (length rows) \<le> 1"
    by (simp add: divide_le_eq_1)
  with a show ?thesis by simp
qed



text \<open>
  Claim C10: the accuracy reads the cells (1,1) and (2,2) of the table, so it has a
  value exactly when both labels occur among the true labels and both among the
  predictions; when every message has the same prediction it stops with
  \<^verbatim>\<open>subscript out of bounds\<close>, its only error, and a value it returns is in [0, 1].
\<close>

theorem accuracy_needs_both_labels:
  "((\<exists>a. accuracy rows = Inr a) \<longleftrightarrow>
      (Ham \<in> fst ` set rows \<and> Spam \<in> fst ` set rows \<and>
       Some Ham \<in> snd ` set rows \<and> Some Spam \<in> snd ` set rows)) \<and>
   ((\<forall>r\<in>set rows. snd r = p) \<longrightarrow> accuracy rows = Inl Subscript_Out_Of_Bounds) \<and>
   (accuracy rows = Inl e \<longrightarrow> e = Subscript_Out_Of_Bounds) \<and>
   (accuracy rows = Inr a \<longrightarrow> 0 \<le> a \<and> a \<le> 1)"
proof -
  have "(\<exists>a. accuracy rows = Inr a) \<longleftrightarrow>
      (Ham \<in> fst ` set rows \<and> Spam \<in> fst ` set rows \<and>
       Some Ham \<in> snd ` set rows \<and> Some Spam \<in> snd ` set rows)"
    by (simp add: accuracy_cases two_rows two_cols)
  moreover have "accuracy rows = Inl Subscript_Out_Of_Bounds" if "\<forall>r\<in>set rows. snd r = p"
  proof -
    from that have "\<not> (Some Ham \<in> snd ` set rows \<and> Some Spam \<in> snd ` set rows)" by auto
    then show ?thesis by (simp add: accuracy_cases two_cols)
  qed
  moreover have "e = Subscript_Out_Of_Bounds" if "accuracy rows = Inl e"
    using that by (simp add: accuracy_cases split: if_splits)
  moreover have "0 \<le> a \<and> a \<le> 1" if "accuracy rows = Inr a"
    using accuracy_range [OF that] by simp
  ultimately show ?thesis by blast
qed

theorem accuracy_needs_both_labels_witness:
  "accuracy [(Ham, Some Ham), (Spam, Some Spam), (Spam, Some Ham)] = Inr (2 / 3) \<and>
   (0 :: rat) \<le> 2 / 3 \<and> (2 / 3 :: rat) \<le> 1 \<and>
   accuracy [(Ham, Some Spam), (Spam, Some Spam)] = Inl Subscript_Out_Of_Bounds"
proof -
  have a: "accuracy [(Ham, Some Ham), (Spam, Some Spam), (Spam, Some Ham)] = Inr (2 / 3)"
    by (simp add: accuracy_cases row_levels_def col_levels_def levels_cases)
  have "0 \<le> (2 / 3 :: rat) \<and> (2 / 3 :: rat) \<le> 1"
    using accuracy_needs_both_labels [of "[(Ham, Some Ham), (Spam, Some Spam), (Spam, Some Ham)]" _ _ "2 / 3"] a
    by blast
  moreover have "accuracy [(Ham, Some Spam), (Spam, Some Spam)] = Inl Subscript_Out_Of_Bounds"
    using accuracy_needs_both_labels [of "[(Ham, Some Spam), (Spam, Some Spam)]" "Some Spam"]
    by simp
  ultimately show ?thesis using a by blast
qed

section \<open>Properties of the tuning loop\<close>














end
